theory Spec2Isabelle
  imports Main
begin

section \<open>Event hooks of the audio module\<close>

subsection \<open>Python values the registration inspects\<close>

text \<open>
  A class object, as far as \<open>add_event_hook\<close> looks at it: its identity (two classes are
  equal in Python only when they are the same object), its \<open>__name__\<close> and its
  \<open>__bases__\<close>, the immediate base classes.
\<close>

datatype pyclass = PyClass (cls_id: nat) (cls_name: string) (cls_bases: "pyclass list")

definition object_class :: pyclass where
  "object_class = PyClass 0 ''object'' []"

text \<open>
  Modelled from the spec: the class \<open>Event\<close> of the module \<open>events\<close>, which the audio
  package imports and which is not among the sources. It is the base of every event kind
  and derives from \<open>object\<close> only.
\<close>

definition Event :: pyclass where
  "Event = PyClass 1 ''Event'' [object_class]"

text \<open>
  A hook argument: any Python object. The registration asks two things of it,
  \<open>callable(hook)\<close> and \<open>inspect.iscoroutinefunction(hook)\<close>; a coroutine function is
  always callable, so three kinds of object are told apart.
\<close>

datatype hook_kind = CoroutineFunction | PlainCallable | NotCallable

datatype pyobject = PyObject (obj_id: nat) (obj_kind: hook_kind)

definition callable :: "pyobject \<Rightarrow> bool" where
  "callable hook = (obj_kind hook \<noteq> NotCallable)"

definition iscoroutinefunction :: "pyobject \<Rightarrow> bool" where
  "iscoroutinefunction hook = (obj_kind hook = CoroutineFunction)"

datatype error = TypeError string | NodeUnavailable | NoAvailableNodes

subsection \<open>The registry and \<open>add_event_hook\<close>\<close>

text \<open>
  \<open>Client._event_hooks\<close>: a dictionary from an event class name (or \<open>'Generic'\<close>) to the
  list of hooks registered under it. The class \<open>Client\<close> is not among the sources;
  \<open>add_event_hook\<close> reads the list of any name without a test for the key, so the
  dictionary gives the empty list for a name never registered.
\<close>

type_synonym event_hooks_registry = "string \<Rightarrow> pyobject list"

definition no_hooks :: event_hooks_registry where
  "no_hooks = (\<lambda>event_name. [])"

text \<open>
  The loop \<open>for hook in hooks\<close>. It appends to the list in place, so what it appended
  before a \<open>raise\<close> stays: the list is returned together with the outcome.
\<close>

fun hooks_loop :: "pyobject list \<Rightarrow> pyobject list \<Rightarrow> (error + unit) \<times> pyobject list" where
  "hooks_loop [] event_hooks = (Inr (), event_hooks)"
| "hooks_loop (hook # hooks) event_hooks =
     (if \<not> callable hook \<or> \<not> iscoroutinefunction hook
      then (Inl (TypeError ''Hook is not callable or a coroutine''), event_hooks)
      else if hook \<notin> set event_hooks
      then hooks_loop hooks (event_hooks @ [hook])
      else hooks_loop hooks event_hooks)"

definition event_name_of :: "pyclass option \<Rightarrow> string" where
  "event_name_of event = (case event of Some e \<Rightarrow> cls_name e | None \<Rightarrow> ''Generic'')"

definition add_event_hook ::
  "pyobject list \<Rightarrow> pyclass option \<Rightarrow> event_hooks_registry
     \<Rightarrow> (error + unit) \<times> event_hooks_registry" where
  "add_event_hook hooks event registry =
     (case event of
        Some e \<Rightarrow>
          if Event \<notin> set (cls_bases e)
          then (Inl (TypeError ''Event parameter is not of type Event or None''), registry)
          else (case hooks_loop hooks (registry (cls_name e)) of
                  (outcome, event_hooks) \<Rightarrow> (outcome, registry(cls_name e := event_hooks)))
      | None \<Rightarrow>
          (case hooks_loop hooks (registry ''Generic'') of
             (outcome, event_hooks) \<Rightarrow> (outcome, registry(''Generic'' := event_hooks))))"

text \<open>What the loop accepts: a callable that is a coroutine function.\<close>

definition accepted_hook :: "pyobject \<Rightarrow> bool" where
  "accepted_hook hook = (callable hook \<and> iscoroutinefunction hook)"

text \<open>The guard on the \<open>event\<close> argument passes: \<open>None\<close>, or \<open>Event\<close> among its bases.\<close>

definition event_accepted :: "pyclass option \<Rightarrow> bool" where
  "event_accepted event = (case event of None \<Rightarrow> True | Some e \<Rightarrow> Event \<in> set (cls_bases e))"

subsection \<open>A history of registrations\<close>

text \<open>
  The registry is global and only \<open>add_event_hook\<close> writes to it, so a registry of
  registered handlers is what a sequence of calls leaves, whether or not a call raised.
\<close>

type_synonym registration = "pyobject list \<times> pyclass option"

fun register_all :: "registration list \<Rightarrow> event_hooks_registry \<Rightarrow> event_hooks_registry" where
  "register_all [] registry = registry"
| "register_all ((hooks, event) # calls) registry =
     register_all calls (snd (add_event_hook hooks event registry))"

subsection \<open>Publishing an event\<close>

datatype event = EventInstance (event_type: pyclass) (guild_id: nat)

datatype handler_outcome = Completed | Failed string

text \<open>What a publication leaves behind: the handlers it invoked, in order, and the errors
  it reported to the observability sink.\<close>

record bus =
  invoked :: "pyobject list"
  sink :: "(pyobject \<times> string) list"

text \<open>
  Modelled from the spec: the delivery of one event to a list of handlers, which is code
  of the client that is not among the sources. Each handler is invoked in turn; one that
  raises is isolated: its error goes to the sink and the delivery goes on.
\<close>

fun deliver ::
  "(pyobject \<Rightarrow> event \<Rightarrow> handler_outcome) \<Rightarrow> event \<Rightarrow> pyobject list \<Rightarrow> bus \<Rightarrow> bus" where
  "deliver run ev [] b = b"
| "deliver run ev (h # hs) b =
     (case run h ev of
        Completed \<Rightarrow> deliver run ev hs (b\<lparr>invoked := invoked b @ [h]\<rparr>)
      | Failed msg \<Rightarrow>
          deliver run ev hs (b\<lparr>invoked := invoked b @ [h], sink := sink b @ [(h, msg)]\<rparr>))"

text \<open>
  Modelled from the spec: \<open>publish(event)\<close> of the event bus, which is code of the client
  that is not among the sources. The matching handlers are the wildcard ones, which the
  registration keeps under \<open>'Generic'\<close>, and the ones kept under the name of the event's
  class. Nothing is raised to the caller.
\<close>

definition publish ::
  "(pyobject \<Rightarrow> event \<Rightarrow> handler_outcome) \<Rightarrow> event_hooks_registry \<Rightarrow> event \<Rightarrow> bus
     \<Rightarrow> (error + unit) \<times> bus" where
  "publish run registry ev b =
     (Inr (), deliver run ev (registry ''Generic'' @ registry (cls_name (event_type ev))) b)"

definition always_completes :: "pyobject \<Rightarrow> event \<Rightarrow> handler_outcome" where
  "always_completes h ev = Completed"

definition fails_on :: "nat \<Rightarrow> pyobject \<Rightarrow> event \<Rightarrow> handler_outcome" where
  "fails_on i h ev = (if obj_id h = i then Failed ''handler error'' else Completed)"

definition idle_bus :: bus where
  "idle_bus = \<lparr>invoked = [], sink = []\<rparr>"

section \<open>Nodes of the cluster\<close>

datatype connection_state = Connecting | Connected | Disconnected | Reconnecting | Closed

text \<open>
  A node, with the fields the spec gives it. The telemetry snapshot is left as a type
  parameter, since the penalty formula over it is configuration; \<open>outbound\<close> is what the
  node has handed to its transport.
\<close>

record 's node =
  node_identifier :: string
  connectionState :: connection_state
  stats :: "'s option"
  assignedGuilds :: "nat set"
  outbound :: "(nat \<times> string) list"

definition available :: "'s node \<Rightarrow> bool" where
  "available n = (connectionState n = Connected)"

text \<open>
  Modelled from the spec: \<open>Node.penalty()\<close>, which is not among the sources. The score of
  a snapshot and the sentinel of a node without one are parameters.
\<close>

definition penalty :: "('s \<Rightarrow> 'p) \<Rightarrow> 'p \<Rightarrow> 's node \<Rightarrow> 'p" where
  "penalty score unknown_load n =
     (case stats n of None \<Rightarrow> unknown_load | Some snapshot \<Rightarrow> score snapshot)"

text \<open>
  Modelled from the spec: \<open>Node.send(guildID, payload)\<close>, which is not among the sources.
\<close>

definition send :: "nat \<Rightarrow> string \<Rightarrow> 's node \<Rightarrow> error + 's node" where
  "send guildID payload n =
     (if connectionState n \<noteq> Connected then Inl NodeUnavailable
      else Inr (n\<lparr>outbound := outbound n @ [(guildID, payload)]\<rparr>))"

subsection \<open>Selecting a node\<close>

text \<open>
  Modelled from the spec: the best-node selection of \<open>NodeManager\<close>, which is not among
  the sources. The nodes are scanned in configuration order; a node replaces the best one
  so far only when it is strictly better: a lower penalty, or the same penalty and fewer
  assigned guilds.
\<close>

definition better :: "('s node \<Rightarrow> 'p::linorder) \<Rightarrow> 's node \<Rightarrow> 's node \<Rightarrow> bool" where
  "better pen a b =
     (pen a < pen b \<or> (pen a = pen b \<and> card (assignedGuilds a) < card (assignedGuilds b)))"

definition consider_candidate ::
  "('s node \<Rightarrow> 'p::linorder) \<Rightarrow> (nat \<times> 's node) option \<Rightarrow> nat \<times> 's node
     \<Rightarrow> (nat \<times> 's node) option" where
  "consider_candidate pen best candidate =
     (if available (snd candidate) \<and>
         (case best of None \<Rightarrow> True | Some (j, b) \<Rightarrow> better pen (snd candidate) b)
      then Some candidate else best)"

definition best_node :: "('s node \<Rightarrow> 'p::linorder) \<Rightarrow> 's node list \<Rightarrow> (nat \<times> 's node) option" where
  "best_node pen nodes = foldl (consider_candidate pen) None (enumerate 0 nodes)"

definition add_guild :: "nat \<Rightarrow> 's node \<Rightarrow> 's node" where
  "add_guild guildID n = n\<lparr>assignedGuilds := insert guildID (assignedGuilds n)\<rparr>"

text \<open>
  Modelled from the spec: \<open>NodeManager.assign(guildID)\<close>. It returns the chosen node, with
  the guild added, and the nodes of the cluster after the assignment.
\<close>

definition assign ::
  "('s \<Rightarrow> 'p::linorder) \<Rightarrow> 'p \<Rightarrow> nat \<Rightarrow> 's node list \<Rightarrow> error + 's node \<times> 's node list" where
  "assign score unknown_load guildID nodes =
     (case best_node (penalty score unknown_load) nodes of
        None \<Rightarrow> Inl NoAvailableNodes
      | Some (i, n) \<Rightarrow> Inr (add_guild guildID n, nodes[i := add_guild guildID n]))"

subsection \<open>Reconnect backoff of a transport\<close>

text \<open>
  Modelled from the spec: the backoff policy of the transport, which is not among the
  sources: the delay doubles from a base up to a ceiling and goes back to the base on a
  successful connection. Base and ceiling are configuration.
\<close>

record backoff =
  base_delay :: nat
  max_delay :: nat
  next_delay :: nat

definition new_backoff :: "nat \<Rightarrow> nat \<Rightarrow> backoff" where
  "new_backoff base ceiling = \<lparr>base_delay = base, max_delay = ceiling, next_delay = base\<rparr>"

datatype attempt = Fails | Connects

text \<open>A failed attempt waits the current delay and grows it; a successful one resets it.\<close>

definition attempt_failed :: "backoff \<Rightarrow> nat \<times> backoff" where
  "attempt_failed b =
     (next_delay b, b\<lparr>next_delay := min (max_delay b) (2 * next_delay b)\<rparr>)"

definition attempt_connected :: "backoff \<Rightarrow> backoff" where
  "attempt_connected b = b\<lparr>next_delay := base_delay b\<rparr>"

text \<open>The delays waited over a sequence of attempts, and the policy's state after them.\<close>

fun reconnects :: "attempt list \<Rightarrow> backoff \<Rightarrow> nat list \<times> backoff" where
  "reconnects [] b = ([], b)"
| "reconnects (Fails # as) b =
     (case attempt_failed b of
        (d, b') \<Rightarrow> (case reconnects as b' of (ds, b'') \<Rightarrow> (d # ds, b'')))"
| "reconnects (Connects # as) b = reconnects as (attempt_connected b)"

text \<open>The policy's state is well set when neither the base nor the delay is over the
  ceiling.\<close>

definition well_set :: "backoff \<Rightarrow> bool" where
  "well_set b = (next_delay b \<le> max_delay b \<and> base_delay b \<le> max_delay b)"

section \<open>Invoking an application command\<close>

subsection \<open>Exceptions and awaited results\<close>

text \<open>
  The exceptions the wrappers tell apart. \<open>CheckFailure\<close> and
  \<open>ApplicationCommandInvokeError\<close> derive from \<open>ApplicationCommandError\<close>;
  \<open>OtherException\<close> is any other subclass of \<open>Exception\<close>, \<open>OtherBaseException\<close> one
  that derives from \<open>BaseException\<close> only (\<open>KeyboardInterrupt\<close>, \<open>SystemExit\<close>).
\<close>

datatype exn =
    ApplicationCommandError string
  | CheckFailure string
  | ApplicationCommandInvokeError exn
  | CancelledError
  | OtherException string
  | OtherBaseException string

fun is_ApplicationCommandError :: "exn \<Rightarrow> bool" where
  "is_ApplicationCommandError (ApplicationCommandError _) = True"
| "is_ApplicationCommandError (CheckFailure _) = True"
| "is_ApplicationCommandError (ApplicationCommandInvokeError _) = True"
| "is_ApplicationCommandError _ = False"

fun is_Exception :: "exn \<Rightarrow> bool" where
  "is_Exception (OtherBaseException _) = False"
| "is_Exception CancelledError = False"
| "is_Exception _ = True"

text \<open>What awaiting a coroutine gives: a value, or an exception raised at the \<open>await\<close>
  (a cancellation arrives there as \<open>CancelledError\<close>).\<close>

datatype 'a outcome = Returns 'a | Raises exn

subsection \<open>Commands, cogs, the bot and the context\<close>

text \<open>
  A hook slot holds \<open>None\<close> or a coroutine function, given here by what awaiting it
  gives. For a cog the slot is what \<open>_get_overridden_method\<close> returns.
\<close>

record cog =
  cog_before_invoke :: "unit outcome option"
  cog_after_invoke :: "unit outcome option"

record bot =
  bot_can_run :: "bool outcome"
  bot_before_invoke :: "unit outcome option"
  bot_after_invoke :: "unit outcome option"

record 'v command =
  name :: string
  checks :: "bool outcome list"
  before_invoke_hook :: "unit outcome option"
  after_invoke_hook :: "unit outcome option"
  command_cog :: "cog option"
  invoke_body :: "'v outcome"

datatype call = CalledBeforeHooks | CalledCallback | CalledAfterHooks

text \<open>The context: its bot, the command \<open>prepare\<close> stores in it, and, for the proofs, the
  calls made so far.\<close>

record application_context =
  ctx_bot :: bot
  ctx_command :: "string option"
  calls_made :: "call list"

subsection \<open>Hooks\<close>

definition await_hook :: "unit outcome option \<Rightarrow> unit outcome" where
  "await_hook hook = (case hook of None \<Rightarrow> Returns () | Some result \<Rightarrow> result)"

definition cog_hook :: "(cog \<Rightarrow> unit outcome option) \<Rightarrow> cog option \<Rightarrow> unit outcome option" where
  "cog_hook slot c = (case c of None \<Rightarrow> None | Some the_cog \<Rightarrow> slot the_cog)"

text \<open>
  \<open>call_before_hooks\<close> and \<open>call_after_hooks\<close>: the command's own hook, then the cog's,
  then the bot's; the first that raises ends the call. Whether the command's hook gets
  the instance as an argument does not change that it is awaited once.
\<close>

definition call_before_hooks :: "'v command \<Rightarrow> application_context \<Rightarrow> unit outcome \<times> application_context" where
  "call_before_hooks cmd ctx =
     (let ctx' = ctx\<lparr>calls_made := calls_made ctx @ [CalledBeforeHooks]\<rparr> in
      case await_hook (before_invoke_hook cmd) of
        Raises e \<Rightarrow> (Raises e, ctx')
      | Returns _ \<Rightarrow>
          (case await_hook (cog_hook cog_before_invoke (command_cog cmd)) of
             Raises e \<Rightarrow> (Raises e, ctx')
           | Returns _ \<Rightarrow> (await_hook (bot_before_invoke (ctx_bot ctx)), ctx')))"

definition call_after_hooks :: "'v command \<Rightarrow> application_context \<Rightarrow> unit outcome \<times> application_context" where
  "call_after_hooks cmd ctx =
     (let ctx' = ctx\<lparr>calls_made := calls_made ctx @ [CalledAfterHooks]\<rparr> in
      case await_hook (after_invoke_hook cmd) of
        Raises e \<Rightarrow> (Raises e, ctx')
      | Returns _ \<Rightarrow>
          (case await_hook (cog_hook cog_after_invoke (command_cog cmd)) of
             Raises e \<Rightarrow> (Raises e, ctx')
           | Returns _ \<Rightarrow> (await_hook (bot_after_invoke (ctx_bot ctx)), ctx')))"

subsection \<open>The wrapper and \<open>invoke\<close>\<close>

text \<open>
  \<open>hooked_wrapped_callback\<close>: the \<open>try\<close> statement around \<open>await coro(arg)\<close>. The
  \<open>except\<close> clauses are tried in the order written; the \<open>finally\<close> clause runs on every
  path, and an exception it raises replaces whatever was pending.
\<close>

definition hooked_wrapped_callback ::
  "'v command \<Rightarrow> 'v outcome \<Rightarrow> application_context \<Rightarrow> 'v option outcome \<times> application_context" where
  "hooked_wrapped_callback cmd coro ctx =
     (let ctx1 = ctx\<lparr>calls_made := calls_made ctx @ [CalledCallback]\<rparr>;
          pending =
            (case coro of
               Returns ret \<Rightarrow> Returns (Some ret)
             | Raises exc \<Rightarrow>
                 if is_ApplicationCommandError exc then Raises exc
                 else if exc = CancelledError then Returns None
                 else if is_Exception exc then Raises (ApplicationCommandInvokeError exc)
                 else Raises exc)
      in case call_after_hooks cmd ctx1 of
           (Raises e, ctx2) \<Rightarrow> (Raises e, ctx2)
         | (Returns _, ctx2) \<Rightarrow> (pending, ctx2))"

text \<open>
  \<open>can_run\<close>. The helper \<open>async_all\<close> of the library's utilities is not among the sources
  and is a parameter: it awaits the checks and says whether all hold.
\<close>

definition can_run ::
  "(bool outcome list \<Rightarrow> bool outcome) \<Rightarrow> 'v command \<Rightarrow> application_context \<Rightarrow> bool outcome" where
  "can_run async_all cmd ctx =
     (case bot_can_run (ctx_bot ctx) of
        Raises e \<Rightarrow> Raises e
      | Returns ok \<Rightarrow>
          if \<not> ok
          then Raises (CheckFailure
                 (''The global check functions for command '' @ name cmd @ '' failed.''))
          else if checks cmd = [] then Returns True
          else async_all (checks cmd))"

definition prepare ::
  "(bool outcome list \<Rightarrow> bool outcome) \<Rightarrow> 'v command \<Rightarrow> application_context \<Rightarrow> unit outcome \<times> application_context" where
  "prepare async_all cmd ctx =
     (let ctx1 = ctx\<lparr>ctx_command := Some (name cmd)\<rparr> in
      case can_run async_all cmd ctx1 of
        Raises e \<Rightarrow> (Raises e, ctx1)
      | Returns ok \<Rightarrow>
          if \<not> ok
          then (Raises (CheckFailure
                  (''The check functions for the command '' @ name cmd @ '' failed'')), ctx1)
          else call_before_hooks cmd ctx1)"

definition invoke ::
  "(bool outcome list \<Rightarrow> bool outcome) \<Rightarrow> 'v command \<Rightarrow> application_context \<Rightarrow> unit outcome \<times> application_context" where
  "invoke async_all cmd ctx =
     (case prepare async_all cmd ctx of
        (Raises e, ctx1) \<Rightarrow> (Raises e, ctx1)
      | (Returns _, ctx1) \<Rightarrow>
          (case hooked_wrapped_callback cmd (invoke_body cmd) ctx1 of
             (Raises e, ctx2) \<Rightarrow> (Raises e, ctx2)
           | (Returns _, ctx2) \<Rightarrow> (Returns (), ctx2)))"

section \<open>Properties of the registration\<close>

lemma hooks_loop_outcome:
  "fst (hooks_loop hooks event_hooks) =
     (if list_all accepted_hook hooks then Inr ()
      else Inl (TypeError ''Hook is not callable or a coroutine''))"
  by (induction hooks arbitrary: event_hooks) (auto simp: accepted_hook_def)

lemma hooks_loop_set:
  "set (snd (hooks_loop hooks event_hooks)) =
     set event_hooks \<union> set (takeWhile accepted_hook hooks)"
  by (induction hooks arbitrary: event_hooks) (auto simp: accepted_hook_def)

lemma hooks_loop_distinct:
  "distinct event_hooks \<Longrightarrow> distinct (snd (hooks_loop hooks event_hooks))"
  by (induction hooks arbitrary: event_hooks) auto

lemma hooks_loop_present:
  "set (takeWhile accepted_hook hooks) \<subseteq> set event_hooks
     \<Longrightarrow> snd (hooks_loop hooks event_hooks) = event_hooks"
  by (induction hooks arbitrary: event_hooks) (auto simp: accepted_hook_def)

lemma hooks_loop_count_rejected:
  "\<not> accepted_hook h
     \<Longrightarrow> count_list (snd (hooks_loop hooks event_hooks)) h = count_list event_hooks h"
  by (induction hooks arbitrary: event_hooks) (auto simp: accepted_hook_def)

lemma hooks_loop_idem:
  "snd (hooks_loop hooks (snd (hooks_loop hooks event_hooks))) =
     snd (hooks_loop hooks event_hooks)"
  by (rule hooks_loop_present) (simp add: hooks_loop_set)

subsection \<open>The call as a whole\<close>

lemma add_event_hook_outcome:
  "fst (add_event_hook hooks event registry) =
     (if \<not> event_accepted event
      then Inl (TypeError ''Event parameter is not of type Event or None'')
      else if list_all accepted_hook hooks then Inr ()
      else Inl (TypeError ''Hook is not callable or a coroutine''))"
  by (simp add: add_event_hook_def event_accepted_def hooks_loop_outcome
      split: option.splits prod.splits) (metis fst_conv hooks_loop_outcome)

lemma add_event_hook_registry:
  "snd (add_event_hook hooks event registry) =
     (if event_accepted event
      then registry(event_name_of event :=
             snd (hooks_loop hooks (registry (event_name_of event))))
      else registry)"
  by (simp add: add_event_hook_def event_accepted_def event_name_of_def
      split: option.splits prod.splits)

text \<open>
  Claim C4. A hook argument that is not a coroutine function makes the registration raise
  \<open>TypeError\<close>, and the call does not add it: under every key the registry holds it as
  often after the call as before.
\<close>

theorem add_event_hook_refuses_non_coroutine:
  assumes "hook \<in> set hooks" and "\<not> (callable hook \<and> iscoroutinefunction hook)"
  shows "(\<exists>msg. fst (add_event_hook hooks event registry) = Inl (TypeError msg)) \<and>
         (\<forall>event_name.
            count_list (snd (add_event_hook hooks event registry) event_name) hook =
            count_list (registry event_name) hook)"
proof -
  from assms have rejected: "\<not> accepted_hook hook"
    by (simp add: accepted_hook_def)
  with assms(1) have "\<not> list_all accepted_hook hooks"
    by (auto simp: list_all_iff)
  then have "\<exists>msg. fst (add_event_hook hooks event registry) = Inl (TypeError msg)"
    by (simp add: add_event_hook_outcome)
  moreover have "count_list (snd (add_event_hook hooks event registry) event_name) hook =
      count_list (registry event_name) hook" for event_name
    using rejected by (simp add: add_event_hook_registry hooks_loop_count_rejected)
  ultimately show ?thesis by blast
qed

theorem add_event_hook_refuses_non_coroutine_witness:
  "PyObject 2 PlainCallable \<in> set [PyObject 1 CoroutineFunction, PyObject 2 PlainCallable] \<and>
   \<not> (callable (PyObject 2 PlainCallable) \<and> iscoroutinefunction (PyObject 2 PlainCallable)) \<and>
   fst (add_event_hook [PyObject 1 CoroutineFunction, PyObject 2 PlainCallable] None no_hooks)
     = Inl (TypeError ''Hook is not callable or a coroutine'') \<and>
   count_list (snd (add_event_hook [PyObject 1 CoroutineFunction, PyObject 2 PlainCallable]
      None no_hooks) ''Generic'') (PyObject 2 PlainCallable) = 0"
  using add_event_hook_refuses_non_coroutine
    [of "PyObject 2 PlainCallable" "[PyObject 1 CoroutineFunction, PyObject 2 PlainCallable]"
        None no_hooks]
  by (simp add: callable_def iscoroutinefunction_def no_hooks_def add_event_hook_outcome
      event_accepted_def accepted_hook_def)

text \<open>
  Claim C5. Registering a handler \<open>h\<close> for a key \<open>k\<close> (an event class, or \<open>None\<close> for the
  generic key) a second time leaves the registry exactly as the first registration left
  it.
\<close>

theorem add_event_hook_twice:
  "snd (add_event_hook [h] k (snd (add_event_hook [h] k registry))) =
     snd (add_event_hook [h] k registry)"
  by (simp add: add_event_hook_registry hooks_loop_idem)

text \<open>
  Claim C8. The event argument is accepted only when it is \<open>None\<close> or a class with
  \<open>Event\<close> among its immediate bases. For every other class, \<open>Event\<close> itself and an
  indirect descendant included, the call raises \<open>TypeError\<close> and leaves the registry as it
  was, whatever the hooks are.
\<close>

theorem add_event_hook_event_guard:
  "(Event \<notin> set (cls_bases E) \<longrightarrow>
      add_event_hook hooks (Some E) registry =
        (Inl (TypeError ''Event parameter is not of type Event or None''), registry)) \<and>
   ((fst (add_event_hook hooks event registry) \<noteq>
       Inl (TypeError ''Event parameter is not of type Event or None'')) =
    (event = None \<or> (\<exists>D. event = Some D \<and> Event \<in> set (cls_bases D))))"
proof -
  have "(event = None \<or> (\<exists>D. event = Some D \<and> Event \<in> set (cls_bases D))) =
      event_accepted event"
    by (cases event) (simp_all add: event_accepted_def)
  then show ?thesis
    by (simp add: add_event_hook_outcome) (simp add: add_event_hook_def)
qed

theorem add_event_hook_event_guard_witness:
  "Event \<notin> set (cls_bases Event) \<and>
   add_event_hook [PyObject 1 CoroutineFunction] (Some Event) no_hooks =
     (Inl (TypeError ''Event parameter is not of type Event or None''), no_hooks) \<and>
   Event \<notin> set (cls_bases (PyClass 7 ''Remix'' [PyClass 5 ''TrackEndEvent'' [Event]])) \<and>
   add_event_hook [PyObject 1 CoroutineFunction]
       (Some (PyClass 7 ''Remix'' [PyClass 5 ''TrackEndEvent'' [Event]])) no_hooks =
     (Inl (TypeError ''Event parameter is not of type Event or None''), no_hooks)"
  using add_event_hook_event_guard
      [of Event "[PyObject 1 CoroutineFunction]" no_hooks None]
    add_event_hook_event_guard
      [of "PyClass 7 ''Remix'' [PyClass 5 ''TrackEndEvent'' [Event]]"
          "[PyObject 1 CoroutineFunction]" no_hooks None]
  by (simp add: Event_def object_class_def)

text \<open>
  Claim C9, as amended. When the event argument passes the guard (\<open>None\<close>, or a class with
  \<open>Event\<close> among its immediate bases) and \<open>bad\<close> is the first hook that is not a coroutine
  function, the call raises \<open>TypeError\<close> and the hooks before \<open>bad\<close> are in the registry
  under the event's key all the same.
\<close>

theorem add_event_hook_keeps_valid_prefix:
  assumes "event = None \<or> (\<exists>D. event = Some D \<and> Event \<in> set (cls_bases D))"
    and "\<forall>h\<in>set valid. callable h \<and> iscoroutinefunction h"
    and "\<not> (callable bad \<and> iscoroutinefunction bad)"
  shows "fst (add_event_hook (valid @ bad # rest) event registry) =
           Inl (TypeError ''Hook is not callable or a coroutine'') \<and>
         set valid \<subseteq>
           set (snd (add_event_hook (valid @ bad # rest) event registry) (event_name_of event))"
proof -
  from assms(1) have ok: "event_accepted event"
    by (auto simp: event_accepted_def)
  from assms(2,3) have prefix: "takeWhile accepted_hook (valid @ bad # rest) = valid"
    by (simp add: accepted_hook_def takeWhile_append2)
  from assms(3) have "\<not> list_all accepted_hook (valid @ bad # rest)"
    by (auto simp: accepted_hook_def)
  with ok have "fst (add_event_hook (valid @ bad # rest) event registry) =
      Inl (TypeError ''Hook is not callable or a coroutine'')"
    by (simp add: add_event_hook_outcome)
  moreover from ok prefix have "set valid \<subseteq>
      set (snd (add_event_hook (valid @ bad # rest) event registry) (event_name_of event))"
    by (simp add: add_event_hook_registry hooks_loop_set)
  ultimately show ?thesis by simp
qed

theorem add_event_hook_keeps_valid_prefix_witness:
  "fst (add_event_hook [PyObject 1 CoroutineFunction, PyObject 2 PlainCallable,
         PyObject 3 CoroutineFunction] (Some (PyClass 5 ''TrackEndEvent'' [Event])) no_hooks) =
     Inl (TypeError ''Hook is not callable or a coroutine'') \<and>
   snd (add_event_hook [PyObject 1 CoroutineFunction, PyObject 2 PlainCallable,
         PyObject 3 CoroutineFunction] (Some (PyClass 5 ''TrackEndEvent'' [Event])) no_hooks)
     ''TrackEndEvent'' = [PyObject 1 CoroutineFunction]"
  using add_event_hook_keeps_valid_prefix
    [of "Some (PyClass 5 ''TrackEndEvent'' [Event])" "[PyObject 1 CoroutineFunction]"
        "PyObject 2 PlainCallable" "[PyObject 3 CoroutineFunction]" no_hooks]
  by (simp add: add_event_hook_def callable_def iscoroutinefunction_def no_hooks_def
      Event_def object_class_def)

text \<open>
  Claim C9 as stated does not hold for every event argument: with \<open>event=Event\<close> the
  guard raises before the loop, and the valid first hook is not registered.
\<close>

theorem add_event_hook_guard_first_counterexample:
  "fst (add_event_hook [PyObject 1 CoroutineFunction, PyObject 2 PlainCallable]
         (Some Event) no_hooks) =
     Inl (TypeError ''Event parameter is not of type Event or None'') \<and>
   PyObject 1 CoroutineFunction \<notin>
     set (snd (add_event_hook [PyObject 1 CoroutineFunction, PyObject 2 PlainCallable]
            (Some Event) no_hooks) (event_name_of (Some Event))) \<and>
   snd (add_event_hook [PyObject 1 CoroutineFunction, PyObject 2 PlainCallable]
         (Some Event) no_hooks) = no_hooks"
  by (simp add: add_event_hook_def Event_def object_class_def no_hooks_def)

section \<open>Properties of the event bus\<close>

lemma deliver_invoked: "invoked (deliver run ev hs b) = invoked b @ hs"
  by (induction hs arbitrary: b) (auto split: handler_outcome.splits)

lemma deliver_sink:
  "set (sink (deliver run ev hs b)) =
     set (sink b) \<union> {(h, msg). h \<in> set hs \<and> run h ev = Failed msg}"
  by (induction hs arbitrary: b) (auto split: handler_outcome.splits)

text \<open>
  Claim C2. Publishing one event invokes each handler registered for the event's type
  once and each wildcard handler once, and no handler registered only for other event
  types. The registration breaks the last part: it files a hook under the name of the
  event class and the wildcard hooks under the name \<open>'Generic'\<close>, so a hook registered
  for an event class that is called \<open>Generic\<close> leaves the registry exactly as its
  registration with \<open>event=None\<close> does. It stands in the wildcard list, and the
  publication of a \<open>TrackEndEvent\<close> invokes it, against the docstring's word that it is
  dispatched when that specific event is dispatched.
\<close>

theorem generic_named_class_registers_as_wildcard:
  "add_event_hook [PyObject 1 CoroutineFunction] (Some (PyClass 9 ''Generic'' [Event])) no_hooks =
     add_event_hook [PyObject 1 CoroutineFunction] None no_hooks \<and>
   snd (add_event_hook [PyObject 1 CoroutineFunction] (Some (PyClass 9 ''Generic'' [Event]))
          no_hooks) ''Generic'' = [PyObject 1 CoroutineFunction] \<and>
   snd (add_event_hook [PyObject 1 CoroutineFunction] (Some (PyClass 9 ''Generic'' [Event]))
          no_hooks) ''TrackEndEvent'' = [] \<and>
   invoked (snd (publish always_completes
     (snd (add_event_hook [PyObject 1 CoroutineFunction] (Some (PyClass 9 ''Generic'' [Event]))
             no_hooks))
     (EventInstance (PyClass 5 ''TrackEndEvent'' [Event]) 42) idle_bus)) =
   [PyObject 1 CoroutineFunction]"
  by (simp add: publish_def always_completes_def idle_bus_def
      add_event_hook_def callable_def iscoroutinefunction_def no_hooks_def
      Event_def object_class_def)

text \<open>
  Claim C3. When a matching handler raises, the publication still invokes every matching
  handler, the wildcard ones and those of the event's class; the error goes to the sink
  and the publication raises nothing to its caller.
\<close>

theorem publish_isolates_failing_handler:
  assumes "h \<in> set (registry ''Generic'' @ registry (cls_name (event_type ev)))"
    and "run h ev = Failed msg"
  shows "fst (publish run registry ev b) = Inr () \<and>
         invoked (snd (publish run registry ev b)) =
           invoked b @ registry ''Generic'' @ registry (cls_name (event_type ev)) \<and>
         (h, msg) \<in> set (sink (snd (publish run registry ev b)))"
  using assms by (auto simp: publish_def deliver_invoked deliver_sink)

theorem publish_isolates_failing_handler_witness:
  "fails_on 2 (PyObject 2 CoroutineFunction)
      (EventInstance (PyClass 5 ''TrackEndEvent'' [Event]) 42) = Failed ''handler error'' \<and>
   publish (fails_on 2)
     (register_all
        [([PyObject 1 CoroutineFunction], None),
         ([PyObject 2 CoroutineFunction, PyObject 3 CoroutineFunction],
            Some (PyClass 5 ''TrackEndEvent'' [Event]))]
        no_hooks)
     (EventInstance (PyClass 5 ''TrackEndEvent'' [Event]) 42) idle_bus =
   (Inr (),
    \<lparr>invoked = [PyObject 1 CoroutineFunction, PyObject 2 CoroutineFunction,
                PyObject 3 CoroutineFunction],
     sink = [(PyObject 2 CoroutineFunction, ''handler error'')]\<rparr>)"
  using publish_isolates_failing_handler
    [of "PyObject 2 CoroutineFunction"
        "register_all
           [([PyObject 1 CoroutineFunction], None),
            ([PyObject 2 CoroutineFunction, PyObject 3 CoroutineFunction],
               Some (PyClass 5 ''TrackEndEvent'' [Event]))]
           no_hooks"
        "EventInstance (PyClass 5 ''TrackEndEvent'' [Event]) 42"
        "fails_on 2" "''handler error''" idle_bus]
  by (simp add: publish_def fails_on_def idle_bus_def
      add_event_hook_def callable_def iscoroutinefunction_def no_hooks_def
      Event_def object_class_def)

section \<open>Properties of the cluster\<close>

subsection \<open>Selection\<close>

lemma best_node_snoc:
  "best_node pen (ns @ [n]) = consider_candidate pen (best_node pen ns) (length ns, n)"
  by (simp add: best_node_def enumerate_append_eq)

lemma best_node_Nil: "best_node pen [] = None"
  by (simp add: best_node_def)

lemma best_node_spec:
  "(case best_node pen ns of
      None \<Rightarrow> \<forall>n\<in>set ns. \<not> available n
    | Some (i, b) \<Rightarrow>
        i < length ns \<and> b = ns ! i \<and> available b \<and>
        (\<forall>j<length ns. available (ns ! j) \<longrightarrow>
           pen b < pen (ns ! j) \<or>
           (pen b = pen (ns ! j) \<and>
            (card (assignedGuilds b) < card (assignedGuilds (ns ! j)) \<or>
             (card (assignedGuilds b) = card (assignedGuilds (ns ! j)) \<and> i \<le> j)))))"
proof (induction ns rule: rev_induct)
  case Nil
  then show ?case by (simp add: best_node_Nil)
next
  case (snoc n ns)
  show ?case
  proof (cases "best_node pen ns")
    case None
    with snoc have none: "\<forall>m\<in>set ns. \<not> available m"
      by simp
    then have "\<not> available (ns ! j)" if "j < length ns" for j
      using that by simp
    with none show ?thesis
      by (auto simp: best_node_snoc consider_candidate_def None nth_append less_Suc_eq)
  next
    case (Some best)
    obtain i b where best: "best = (i, b)"
      by (cases best)
    from snoc Some best have i: "i < length ns" and b: "b = ns ! i" and av: "available b"
      and least: "\<And>j. j < length ns \<Longrightarrow> available (ns ! j) \<Longrightarrow>
           pen b < pen (ns ! j) \<or>
           (pen b = pen (ns ! j) \<and>
            (card (assignedGuilds b) < card (assignedGuilds (ns ! j)) \<or>
             (card (assignedGuilds b) = card (assignedGuilds (ns ! j)) \<and> i \<le> j)))"
      by auto
    show ?thesis
    proof (cases "available n \<and> better pen n b")
      case True
      then have r: "best_node pen (ns @ [n]) = Some (length ns, n)"
        by (simp add: best_node_snoc consider_candidate_def Some best)
      have "pen n < pen ((ns @ [n]) ! j) \<or>
           (pen n = pen ((ns @ [n]) ! j) \<and>
            (card (assignedGuilds n) < card (assignedGuilds ((ns @ [n]) ! j)) \<or>
             (card (assignedGuilds n) = card (assignedGuilds ((ns @ [n]) ! j)) \<and> length ns \<le> j)))"
        if j: "j < length (ns @ [n])" and a: "available ((ns @ [n]) ! j)" for j
      proof (cases "j < length ns")
        case True
        with a have "available (ns ! j)" by (simp add: nth_append)
        from least [OF True this] \<open>available n \<and> better pen n b\<close> True
        show ?thesis
          by (auto simp: better_def nth_append)
      next
        case False
        with j have "j = length ns" by simp
        then show ?thesis by simp
      qed
      with r True show ?thesis by simp
    next
      case False
      then have r: "best_node pen (ns @ [n]) = Some (i, b)"
        by (auto simp: best_node_snoc consider_candidate_def Some best)
      have "pen b < pen ((ns @ [n]) ! j) \<or>
           (pen b = pen ((ns @ [n]) ! j) \<and>
            (card (assignedGuilds b) < card (assignedGuilds ((ns @ [n]) ! j)) \<or>
             (card (assignedGuilds b) = card (assignedGuilds ((ns @ [n]) ! j)) \<and> i \<le> j)))"
        if j: "j < length (ns @ [n])" and a: "available ((ns @ [n]) ! j)" for j
      proof (cases "j < length ns")
        case True
        with a have "available (ns ! j)" by (simp add: nth_append)
        from least [OF True this] True show ?thesis
          by (simp add: nth_append)
      next
        case False
        with j have jl: "j = length ns" by simp
        with a have "available n" by simp
        with \<open>\<not> (available n \<and> better pen n b)\<close> have "\<not> better pen n b" by simp
        with jl i show ?thesis
          by (auto simp: better_def)
      qed
      with r i b av show ?thesis by (simp add: nth_append)
    qed
  qed
qed

text \<open>
  Claim C1. When some node is available, \<open>assign\<close> returns an available node, with the
  guild added to it: the one of lowest penalty among the available nodes, of fewest
  assigned guilds among those of that penalty, and the first in configuration order among
  those that remain. When no node is available it fails with \<open>NoAvailableNodes\<close>.
\<close>

theorem assign_returns_best_node:
  "((\<exists>n\<in>set nodes. available n) \<longrightarrow>
      (\<exists>i<length nodes.
         available (nodes ! i) \<and>
         assign score unknown_load guildID nodes =
           Inr (add_guild guildID (nodes ! i), nodes[i := add_guild guildID (nodes ! i)]) \<and>
         (\<forall>j<length nodes. available (nodes ! j) \<longrightarrow>
            penalty score unknown_load (nodes ! i) < penalty score unknown_load (nodes ! j) \<or>
            (penalty score unknown_load (nodes ! i) = penalty score unknown_load (nodes ! j) \<and>
             (card (assignedGuilds (nodes ! i)) < card (assignedGuilds (nodes ! j)) \<or>
              (card (assignedGuilds (nodes ! i)) = card (assignedGuilds (nodes ! j)) \<and>
               i \<le> j)))))) \<and>
   ((\<forall>n\<in>set nodes. \<not> available n) \<longrightarrow>
      assign score unknown_load guildID nodes = Inl NoAvailableNodes)"
proof (cases "best_node (penalty score unknown_load) nodes")
  case None
  with best_node_spec [where pen = "penalty score unknown_load" and ns = nodes]
  show ?thesis
    by (simp add: assign_def)
next
  case (Some best)
  obtain i b where best: "best = (i, b)"
    by (cases best)
  from best_node_spec [where pen = "penalty score unknown_load" and ns = nodes] Some best
  have i: "i < length nodes" and b: "b = nodes ! i" and av: "available (nodes ! i)"
    and least: "\<forall>j<length nodes. available (nodes ! j) \<longrightarrow>
            penalty score unknown_load (nodes ! i) < penalty score unknown_load (nodes ! j) \<or>
            (penalty score unknown_load (nodes ! i) = penalty score unknown_load (nodes ! j) \<and>
             (card (assignedGuilds (nodes ! i)) < card (assignedGuilds (nodes ! j)) \<or>
              (card (assignedGuilds (nodes ! i)) = card (assignedGuilds (nodes ! j)) \<and>
               i \<le> j)))"
    by auto
  have r: "assign score unknown_load guildID nodes =
      Inr (add_guild guildID (nodes ! i), nodes[i := add_guild guildID (nodes ! i)])"
    by (simp add: assign_def Some best b)
  from i av have "\<not> (\<forall>n\<in>set nodes. \<not> available n)"
    by (meson nth_mem)
  moreover from i av r least have "\<exists>i<length nodes.
         available (nodes ! i) \<and>
         assign score unknown_load guildID nodes =
           Inr (add_guild guildID (nodes ! i), nodes[i := add_guild guildID (nodes ! i)]) \<and>
         (\<forall>j<length nodes. available (nodes ! j) \<longrightarrow>
            penalty score unknown_load (nodes ! i) < penalty score unknown_load (nodes ! j) \<or>
            (penalty score unknown_load (nodes ! i) = penalty score unknown_load (nodes ! j) \<and>
             (card (assignedGuilds (nodes ! i)) < card (assignedGuilds (nodes ! j)) \<or>
              (card (assignedGuilds (nodes ! i)) = card (assignedGuilds (nodes ! j)) \<and>
               i \<le> j))))"
    by blast
  ultimately show ?thesis by blast
qed

theorem assign_returns_best_node_witness:
  "assign id (1000::nat) 7
     [\<lparr>node_identifier = ''a'', connectionState = Disconnected, stats = Some 0,
        assignedGuilds = {}, outbound = []\<rparr>,
      \<lparr>node_identifier = ''b'', connectionState = Connected, stats = Some 5,
        assignedGuilds = {1, 2}, outbound = []\<rparr>,
      \<lparr>node_identifier = ''c'', connectionState = Connected, stats = Some 5,
        assignedGuilds = {3}, outbound = []\<rparr>,
      \<lparr>node_identifier = ''d'', connectionState = Connected, stats = Some 5,
        assignedGuilds = {4}, outbound = []\<rparr>,
      \<lparr>node_identifier = ''e'', connectionState = Connected, stats = None,
        assignedGuilds = {}, outbound = []\<rparr>] =
   Inr (\<lparr>node_identifier = ''c'', connectionState = Connected, stats = Some 5,
          assignedGuilds = {7, 3}, outbound = []\<rparr>,
     [\<lparr>node_identifier = ''a'', connectionState = Disconnected, stats = Some 0,
        assignedGuilds = {}, outbound = []\<rparr>,
      \<lparr>node_identifier = ''b'', connectionState = Connected, stats = Some 5,
        assignedGuilds = {1, 2}, outbound = []\<rparr>,
      \<lparr>node_identifier = ''c'', connectionState = Connected, stats = Some 5,
        assignedGuilds = {7, 3}, outbound = []\<rparr>,
      \<lparr>node_identifier = ''d'', connectionState = Connected, stats = Some 5,
        assignedGuilds = {4}, outbound = []\<rparr>,
      \<lparr>node_identifier = ''e'', connectionState = Connected, stats = None,
        assignedGuilds = {}, outbound = []\<rparr>]) \<and>
   assign id (1000::nat) 7
     [\<lparr>node_identifier = ''a'', connectionState = Reconnecting, stats = Some (0::nat),
        assignedGuilds = {}, outbound = []\<rparr>] = Inl NoAvailableNodes"
  using assign_returns_best_node [of
     "[\<lparr>node_identifier = ''a'', connectionState = Disconnected, stats = Some 0,
        assignedGuilds = {}, outbound = []\<rparr>,
      \<lparr>node_identifier = ''b'', connectionState = Connected, stats = Some 5,
        assignedGuilds = {1, 2}, outbound = []\<rparr>,
      \<lparr>node_identifier = ''c'', connectionState = Connected, stats = Some 5,
        assignedGuilds = {3}, outbound = []\<rparr>,
      \<lparr>node_identifier = ''d'', connectionState = Connected, stats = Some 5,
        assignedGuilds = {4}, outbound = []\<rparr>,
      \<lparr>node_identifier = ''e'', connectionState = Connected, stats = None,
        assignedGuilds = {}, outbound = []\<rparr>]" id "1000::nat" 7]
    assign_returns_best_node [of
     "[\<lparr>node_identifier = ''a'', connectionState = Reconnecting, stats = Some (0::nat),
        assignedGuilds = {}, outbound = []\<rparr>]" id "1000::nat" 7]
  by (simp add: assign_def best_node_def consider_candidate_def better_def penalty_def
      available_def add_guild_def)

subsection \<open>Sending\<close>

text \<open>
  Claim C7. \<open>send\<close> fails with \<open>NodeUnavailable\<close> whenever the node is not \<open>Connected\<close>,
  while \<open>Reconnecting\<close> too, and hands the command to the transport when it is.
\<close>

theorem send_requires_connected:
  "(connectionState n \<noteq> Connected \<longrightarrow> send guildID payload n = Inl NodeUnavailable) \<and>
   (connectionState n = Connected \<longrightarrow>
      send guildID payload n = Inr (n\<lparr>outbound := outbound n @ [(guildID, payload)]\<rparr>))"
  by (simp add: send_def)

theorem send_requires_connected_witness:
  "send 7 ''{\"op\": \"pause\"}''
     \<lparr>node_identifier = ''a'', connectionState = Reconnecting, stats = Some (0::nat),
       assignedGuilds = {7}, outbound = []\<rparr> = Inl NodeUnavailable \<and>
   send 7 ''{\"op\": \"pause\"}''
     \<lparr>node_identifier = ''a'', connectionState = Connected, stats = Some (0::nat),
       assignedGuilds = {7}, outbound = []\<rparr> =
     Inr \<lparr>node_identifier = ''a'', connectionState = Connected, stats = Some (0::nat),
       assignedGuilds = {7}, outbound = [(7, ''{\"op\": \"pause\"}'')]\<rparr>"
  using send_requires_connected [of
      "\<lparr>node_identifier = ''a'', connectionState = Reconnecting, stats = Some (0::nat),
       assignedGuilds = {7}, outbound = []\<rparr>" 7 "''{\"op\": \"pause\"}''"]
    send_requires_connected [of
      "\<lparr>node_identifier = ''a'', connectionState = Connected, stats = Some (0::nat),
       assignedGuilds = {7}, outbound = []\<rparr>" 7 "''{\"op\": \"pause\"}''"]
  by simp

subsection \<open>Backoff\<close>

lemma attempt_failed_well_set:
  "well_set b \<Longrightarrow> well_set (snd (attempt_failed b))"
  by (simp add: well_set_def attempt_failed_def)

lemma attempt_connected_well_set:
  "well_set b \<Longrightarrow> well_set (attempt_connected b)"
  by (simp add: well_set_def attempt_connected_def)

lemma reconnects_Fails:
  "reconnects (Fails # as) b =
     (next_delay b # fst (reconnects as (snd (attempt_failed b))),
      snd (reconnects as (snd (attempt_failed b))))"
  by (simp add: attempt_failed_def split: prod.splits)

lemma reconnects_config:
  "base_delay (snd (reconnects as b)) = base_delay b \<and>
   max_delay (snd (reconnects as b)) = max_delay b"
proof (induction as arbitrary: b)
  case Nil
  then show ?case by simp
next
  case (Cons a as)
  then show ?case
    by (cases a) (simp_all add: reconnects_Fails attempt_failed_def attempt_connected_def
        del: reconnects.simps(2))
qed

lemma reconnects_well_set:
  "well_set b \<Longrightarrow> well_set (snd (reconnects as b))"
proof (induction as arbitrary: b)
  case Nil
  then show ?case by simp
next
  case (Cons a as)
  then show ?case
    by (cases a) (simp_all add: reconnects_Fails attempt_failed_well_set
        attempt_connected_well_set del: reconnects.simps(2))
qed

lemma reconnects_then_Connects:
  "snd (reconnects (as @ [Connects]) b) = attempt_connected (snd (reconnects as b))"
proof (induction as arbitrary: b)
  case Nil
  then show ?case by simp
next
  case (Cons a as)
  then show ?case
    by (cases a) (simp_all add: reconnects_Fails del: reconnects.simps(2))
qed

lemma failures_delays:
  "well_set b \<Longrightarrow>
     sorted (fst (reconnects (replicate n Fails) b)) \<and>
     (\<forall>d\<in>set (fst (reconnects (replicate n Fails) b)). next_delay b \<le> d \<and> d \<le> max_delay b)"
proof (induction n arbitrary: b)
  case 0
  then show ?case by simp
next
  case (Suc n)
  let ?b' = "b\<lparr>next_delay := min (max_delay b) (2 * next_delay b)\<rparr>"
  from Suc.prems have w: "well_set ?b'"
    by (simp add: well_set_def)
  from Suc.IH [OF w] Suc.prems show ?case
    by (auto simp: reconnects_Fails attempt_failed_def well_set_def
        simp del: reconnects.simps(2))
qed

text \<open>
  Claim C6. With a base delay that is not over the ceiling, and after any history of
  attempts, the delays of consecutive failed attempts never decrease and never exceed the
  ceiling; and after a successful connection the next delay is the base delay again.
\<close>

theorem backoff_grows_and_resets:
  assumes "base \<le> ceiling"
  shows "sorted (fst (reconnects (replicate n Fails)
                        (snd (reconnects history (new_backoff base ceiling))))) \<and>
         (\<forall>d\<in>set (fst (reconnects (replicate n Fails)
                        (snd (reconnects history (new_backoff base ceiling))))). d \<le> ceiling) \<and>
         fst (attempt_failed
                (snd (reconnects (history @ [Connects]) (new_backoff base ceiling)))) = base"
proof -
  let ?b = "snd (reconnects history (new_backoff base ceiling))"
  from assms have "well_set (new_backoff base ceiling)"
    by (simp add: well_set_def new_backoff_def)
  then have w: "well_set ?b"
    by (rule reconnects_well_set)
  have c: "base_delay ?b = base" "max_delay ?b = ceiling"
    using reconnects_config [of history "new_backoff base ceiling"]
    by (simp_all add: new_backoff_def)
  from failures_delays [OF w, of n] c
    reconnects_then_Connects [of history "new_backoff base ceiling"]
  show ?thesis
    by (simp add: attempt_failed_def attempt_connected_def)
qed

theorem backoff_grows_and_resets_witness:
  "(1::nat) \<le> 8 \<and>
   fst (reconnects (replicate 5 Fails) (snd (reconnects [Fails, Connects] (new_backoff 1 8)))) =
     [1, 2, 4, 8, 8] \<and>
   fst (attempt_failed (snd (reconnects ([Fails, Fails, Fails] @ [Connects]) (new_backoff 1 8))))
     = 1"
  using backoff_grows_and_resets [of 1 8 5 "[Fails, Connects]"]
  by (simp add: new_backoff_def attempt_failed_def attempt_connected_def numeral_eq_Suc)

section \<open>Properties of the invocation\<close>

lemma call_before_hooks_calls:
  "calls_made (snd (call_before_hooks cmd ctx)) = calls_made ctx @ [CalledBeforeHooks]"
  by (simp add: call_before_hooks_def Let_def split: outcome.splits)

lemma call_after_hooks_calls:
  "calls_made (snd (call_after_hooks cmd ctx)) = calls_made ctx @ [CalledAfterHooks]"
  by (simp add: call_after_hooks_def Let_def split: outcome.splits)

lemma prepare_calls:
  "fst (prepare async_all cmd ctx) = Returns u \<Longrightarrow>
     calls_made (snd (prepare async_all cmd ctx)) = calls_made ctx @ [CalledBeforeHooks]"
  by (auto simp: prepare_def Let_def call_before_hooks_calls split: outcome.splits if_splits)

lemma hooked_wrapped_callback_calls:
  "calls_made (snd (hooked_wrapped_callback cmd coro ctx)) =
     calls_made ctx @ [CalledCallback, CalledAfterHooks]"
proof -
  obtain r ctx2 where after:
    "call_after_hooks cmd (ctx\<lparr>calls_made := calls_made ctx @ [CalledCallback]\<rparr>) = (r, ctx2)"
    by (cases "call_after_hooks cmd (ctx\<lparr>calls_made := calls_made ctx @ [CalledCallback]\<rparr>)")
  from call_after_hooks_calls [of cmd "ctx\<lparr>calls_made := calls_made ctx @ [CalledCallback]\<rparr>"]
  have "calls_made ctx2 = calls_made ctx @ [CalledCallback, CalledAfterHooks]"
    by (simp add: after)
  then show ?thesis
    by (simp add: hooked_wrapped_callback_def Let_def after split: outcome.splits)
qed

lemma invoke_calls:
  assumes "fst (prepare async_all cmd ctx) = Returns u"
  shows "calls_made (snd (invoke async_all cmd ctx)) =
           calls_made ctx @ [CalledBeforeHooks, CalledCallback, CalledAfterHooks]"
proof -
  obtain ctx1 where p: "prepare async_all cmd ctx = (Returns u, ctx1)"
    using assms by (cases "prepare async_all cmd ctx") simp
  from prepare_calls [OF assms] p
  have c1: "calls_made ctx1 = calls_made ctx @ [CalledBeforeHooks]"
    by simp
  obtain r ctx2 where w: "hooked_wrapped_callback cmd (invoke_body cmd) ctx1 = (r, ctx2)"
    by (cases "hooked_wrapped_callback cmd (invoke_body cmd) ctx1")
  from hooked_wrapped_callback_calls [of cmd "invoke_body cmd" ctx1] w c1
  have "calls_made ctx2 = calls_made ctx @ [CalledBeforeHooks, CalledCallback, CalledAfterHooks]"
    by simp
  then show ?thesis
    by (simp add: invoke_def p w split: outcome.splits)
qed

text \<open>
  Claim C10. When the preparation of an invocation succeeds, \<open>invoke\<close> calls
  \<open>call_after_hooks\<close> exactly once, after the callback, whatever awaiting the callback
  gives: a value, an exception or a cancellation.
\<close>

theorem invoke_calls_after_hooks_once:
  assumes "fst (prepare async_all cmd ctx) = Returns ()"
  shows "count_list (calls_made (snd (invoke async_all cmd ctx))) CalledAfterHooks =
           count_list (calls_made ctx) CalledAfterHooks + 1 \<and>
         calls_made (snd (invoke async_all cmd ctx)) =
           calls_made ctx @ [CalledBeforeHooks, CalledCallback, CalledAfterHooks]"
  by (simp add: invoke_calls [OF assms])

theorem invoke_calls_after_hooks_once_witness:
  "fst (prepare (\<lambda>checks. Returns True)
     \<lparr>name = ''play'', checks = [], before_invoke_hook = None, after_invoke_hook = None,
       command_cog = None, invoke_body = (Raises CancelledError :: unit outcome)\<rparr>
     \<lparr>ctx_bot = \<lparr>bot_can_run = Returns True, bot_before_invoke = None,
                  bot_after_invoke = None\<rparr>,
       ctx_command = None, calls_made = []\<rparr>) = Returns () \<and>
   invoke (\<lambda>checks. Returns True)
     \<lparr>name = ''play'', checks = [], before_invoke_hook = None, after_invoke_hook = None,
       command_cog = None, invoke_body = (Raises CancelledError :: unit outcome)\<rparr>
     \<lparr>ctx_bot = \<lparr>bot_can_run = Returns True, bot_before_invoke = None,
                  bot_after_invoke = None\<rparr>,
       ctx_command = None, calls_made = []\<rparr> =
   (Returns (),
    \<lparr>ctx_bot = \<lparr>bot_can_run = Returns True, bot_before_invoke = None,
                  bot_after_invoke = None\<rparr>,
      ctx_command = Some ''play'',
      calls_made = [CalledBeforeHooks, CalledCallback, CalledAfterHooks]\<rparr>) \<and>
   invoke (\<lambda>checks. Returns True)
     \<lparr>name = ''play'', checks = [], before_invoke_hook = None, after_invoke_hook = None,
       command_cog = None, invoke_body = (Raises (OtherException ''boom'') :: unit outcome)\<rparr>
     \<lparr>ctx_bot = \<lparr>bot_can_run = Returns True, bot_before_invoke = None,
                  bot_after_invoke = None\<rparr>,
       ctx_command = None, calls_made = []\<rparr> =
   (Raises (ApplicationCommandInvokeError (OtherException ''boom'')),
    \<lparr>ctx_bot = \<lparr>bot_can_run = Returns True, bot_before_invoke = None,
                  bot_after_invoke = None\<rparr>,
      ctx_command = Some ''play'',
      calls_made = [CalledBeforeHooks, CalledCallback, CalledAfterHooks]\<rparr>)"
  using invoke_calls_after_hooks_once [of "\<lambda>checks. Returns True"
     "\<lparr>name = ''play'', checks = [], before_invoke_hook = None, after_invoke_hook = None,
       command_cog = None, invoke_body = (Raises CancelledError :: unit outcome)\<rparr>"
     "\<lparr>ctx_bot = \<lparr>bot_can_run = Returns True, bot_before_invoke = None,
                  bot_after_invoke = None\<rparr>,
       ctx_command = None, calls_made = []\<rparr>"]
  by (simp add: invoke_def prepare_def can_run_def call_before_hooks_def
      call_after_hooks_def hooked_wrapped_callback_def await_hook_def cog_hook_def)

end
